theory Spec2Isabelle
  imports Main "HOL-Library.Word"
begin

section \<open>Data model of scoping\_demo.cpp\<close>

text \<open>
  The interpreter works on heap objects reached through raw pointers: \<open>Environment*\<close>
  (created by \<open>new Environment\<close>, destroyed by \<open>delete env\<close> at the end of
  \<open>Function::call\<close>) and \<open>Function*\<close> (created by \<open>new Function\<close>, never
  destroyed). Both heaps are explicit here. An address is an index into the heap; a
  deleted Environment leaves a \<open>None\<close> cell behind, so that an address is never handed
  out twice and a dangling pointer stays recognisable.
\<close>

text \<open>
  \<open>cint\<close> is the C++ \<open>int\<close>, 32 bits wide. The interpreter stores, copies and
  prints such values and computes nothing with them.
\<close>

type_synonym cint = "32 word"
type_synonym env_ptr = nat
type_synonym func_ptr = nat

datatype value_type = Value_INT | Value_FUNC

text \<open>
  \<open>class Value\<close>: the tag and both payload fields. \<open>int_val = None\<close> stands for
  the field that the constructor \<open>Value(Function* f)\<close> leaves without an initialiser;
  \<open>func_val = None\<close> is \<open>nullptr\<close>.
\<close>

record Value =
  type :: value_type
  int_val :: "cint option"
  func_val :: "func_ptr option"

text \<open>The three constructors of \<open>Value\<close>, lines 25 to 27.\<close>

definition Value_default :: Value where
  "Value_default = \<lparr>type = Value_INT, int_val = Some 0, func_val = None\<rparr>"

definition Value_int :: "cint \<Rightarrow> Value" where
  "Value_int v = \<lparr>type = Value_INT, int_val = Some v, func_val = None\<rparr>"

definition Value_func :: "func_ptr \<Rightarrow> Value" where
  "Value_func f = \<lparr>type = Value_FUNC, int_val = None, func_val = Some f\<rparr>"

text \<open>
  \<open>class Expr\<close> and \<open>class Statement\<close> carry a tag and the fields that the tag
  selects; \<open>execute_expr\<close> and \<open>execute_stmt\<close> read, for each tag, only the fields
  listed below, so every object whose read fields are initialised is one of these terms
  (an ASSIGN or CALL built without a name has the name \<open>''''\<close>, a DEF built without a
  body has the body \<open>[]\<close>).
\<close>

datatype Expr = INT_LIT cint | VAR string

datatype Statement =
    ASSIGN string Expr
  | PRINT Expr
  | CALL string
  | DEF string "Statement list"

record Environment =
  vars :: "string \<rightharpoonup> Value"
  parent :: "env_ptr option"

record Function =
  name :: string
  body :: "Statement list"
  definition_env :: "env_ptr option"

text \<open>
  The machine state: the Environment heap, the Function heap and the integers written to
  \<open>std::cout\<close> by PRINT, oldest first. An output entry \<open>None\<close> is an integer whose
  value the program never determined (an \<open>int_val\<close> without initialiser).
\<close>

record state =
  envs :: "Environment option list"
  funcs :: "Function list"
  out :: "cint option list"

definition init_state :: state where
  "init_state = \<lparr>envs = [], funcs = [], out = []\<rparr>"

text \<open>
  \<open>std::runtime_error\<close> with its message. \<open>invalid_pointer\<close> is the undefined
  behaviour of dereferencing a pointer to no live object.
\<close>

datatype error = runtime_error string | invalid_pointer

definition UnboundVariable :: "string \<Rightarrow> error" where
  "UnboundVariable n = runtime_error (''Variable '' @ CHR 0x27 # n @ CHR 0x27 # '' not found'')"

definition NotAFunction :: "string \<Rightarrow> error" where
  "NotAFunction n = runtime_error (CHR 0x27 # n @ CHR 0x27 # '' is not a function'')"

section \<open>Heap operations\<close>

definition env_at :: "state \<Rightarrow> env_ptr \<Rightarrow> Environment option" where
  "env_at s a = (if a < length (envs s) then envs s ! a else None)"

definition new_Environment :: "env_ptr option \<Rightarrow> state \<Rightarrow> env_ptr \<times> state" where
  "new_Environment p s =
     (length (envs s), s\<lparr>envs := envs s @ [Some \<lparr>vars = Map.empty, parent = p\<rparr>]\<rparr>)"

definition delete_Environment :: "env_ptr \<Rightarrow> state \<Rightarrow> state" where
  "delete_Environment a s = s\<lparr>envs := (envs s)[a := None]\<rparr>"

definition new_Function :: "Function \<Rightarrow> state \<Rightarrow> func_ptr \<times> state" where
  "new_Function fn s = (length (funcs s), s\<lparr>funcs := funcs s @ [fn]\<rparr>)"

section \<open>Environment\<close>

text \<open>
  \<open>Environment::get\<close>, lines 70 to 80: the local map, then the parent, then the
  exception. The recursion follows the parent pointers and has no bound of its own, so
  the result is an option: \<open>None\<close> is a lookup that does not return.
\<close>

partial_function (option) Environment_get ::
  "state \<Rightarrow> env_ptr \<Rightarrow> string \<Rightarrow> (error + Value) option" where
  "Environment_get s a n =
     (case env_at s a of
        None \<Rightarrow> Some (Inl invalid_pointer)
      | Some e \<Rightarrow>
          (case vars e n of
             Some v \<Rightarrow> Some (Inr v)
           | None \<Rightarrow>
               (case parent e of
                  Some p \<Rightarrow> Environment_get s p n
                | None \<Rightarrow> Some (Inl (UnboundVariable n)))))"

declare Environment_get.simps [code]

text \<open>\<open>Environment::set\<close>, lines 82 to 85: \<open>vars[name] = value\<close> on this object.\<close>

definition Environment_set :: "state \<Rightarrow> env_ptr \<Rightarrow> string \<Rightarrow> Value \<Rightarrow> error + state" where
  "Environment_set s a n v =
     (case env_at s a of
        None \<Rightarrow> Inl invalid_pointer
      | Some e \<Rightarrow> Inr (s\<lparr>envs := (envs s)[a := Some (e\<lparr>vars := (vars e)(n \<mapsto> v)\<rparr>)]\<rparr>))"

section \<open>The interpreter\<close>

text \<open>\<open>execute_expr\<close>, lines 160 to 171.\<close>

fun execute_expr :: "Expr \<Rightarrow> env_ptr \<Rightarrow> string \<Rightarrow> state \<Rightarrow> (error + Value) option" where
  "execute_expr (INT_LIT v) env scoping_mode s = Some (Inr (Value_int v))"
| "execute_expr (VAR x) env scoping_mode s = Environment_get s env x"

text \<open>
  \<open>execute_stmt\<close> (lines 127 to 158), \<open>Function::call\<close> (lines 98 to 121) and the
  \<open>for\<close> loop of \<open>Function::call\<close> over the body. The three call each other without
  bound (a function may call itself), so they take a budget of nested calls: the first
  argument, spent by \<open>Function_call\<close>. \<open>None\<close> is a run that needs more. A result
  \<open>(Inl e, s)\<close> is the exception \<open>e\<close> thrown in state \<open>s\<close>; it skips
  \<open>delete env\<close> on its way out of \<open>Function::call\<close>, as in the source.
\<close>

fun execute_stmt ::
    "nat \<Rightarrow> Statement \<Rightarrow> env_ptr \<Rightarrow> string \<Rightarrow> state \<Rightarrow> ((error + Value) \<times> state) option"
  and Function_call ::
    "nat \<Rightarrow> Function \<Rightarrow> env_ptr \<Rightarrow> string \<Rightarrow> state \<Rightarrow> ((error + Value) \<times> state) option"
  and call_body ::
    "nat \<Rightarrow> Statement list \<Rightarrow> Value \<Rightarrow> env_ptr \<Rightarrow> string \<Rightarrow> state
       \<Rightarrow> ((error + Value) \<times> state) option"
where
  "execute_stmt k (ASSIGN x e) env scoping_mode s =
     (case execute_expr e env scoping_mode s of
        None \<Rightarrow> None
      | Some (Inl err) \<Rightarrow> Some (Inl err, s)
      | Some (Inr v) \<Rightarrow>
          (case Environment_set s env x v of
             Inl err \<Rightarrow> Some (Inl err, s)
           | Inr s' \<Rightarrow> Some (Inr v, s')))"
| "execute_stmt k (PRINT e) env scoping_mode s =
     (case execute_expr e env scoping_mode s of
        None \<Rightarrow> None
      | Some (Inl err) \<Rightarrow> Some (Inl err, s)
      | Some (Inr v) \<Rightarrow> Some (Inr v, s\<lparr>out := out s @ [int_val v]\<rparr>))"
| "execute_stmt k (CALL x) env scoping_mode s =
     (case Environment_get s env x of
        None \<Rightarrow> None
      | Some (Inl err) \<Rightarrow> Some (Inl err, s)
      | Some (Inr fv) \<Rightarrow>
          if type fv \<noteq> Value_FUNC then Some (Inl (NotAFunction x), s)
          else (case func_val fv of
                  None \<Rightarrow> Some (Inl invalid_pointer, s)
                | Some f \<Rightarrow>
                    if f < length (funcs s)
                    then Function_call k (funcs s ! f) env scoping_mode s
                    else Some (Inl invalid_pointer, s)))"
| "execute_stmt k (DEF x b) env scoping_mode s =
     (case new_Function \<lparr>name = x, body = b, definition_env = Some env\<rparr> s of
        (func, s1) \<Rightarrow>
          (case Environment_set s1 env x (Value_func func) of
             Inl err \<Rightarrow> Some (Inl err, s1)
           | Inr s2 \<Rightarrow> Some (Inr (Value_func func), s2)))"
| "Function_call 0 fn call_env scoping_mode s = None"
| "Function_call (Suc k) fn call_env scoping_mode s =
     (case (if scoping_mode = ''static''
            then new_Environment (definition_env fn) s
            else new_Environment (Some call_env) s) of
        (env, s1) \<Rightarrow>
          (case call_body k (body fn) Value_default env scoping_mode s1 of
             None \<Rightarrow> None
           | Some (Inl err, s2) \<Rightarrow> Some (Inl err, s2)
           | Some (Inr result, s2) \<Rightarrow> Some (Inr result, delete_Environment env s2)))"
| "call_body k [] result env scoping_mode s = Some (Inr result, s)"
| "call_body k (stmt # rest) result env scoping_mode s =
     (case execute_stmt k stmt env scoping_mode s of
        None \<Rightarrow> None
      | Some (Inl err, s') \<Rightarrow> Some (Inl err, s')
      | Some (Inr r, s') \<Rightarrow> call_body k rest r env scoping_mode s')"

text \<open>
  \<open>run_program\<close>, lines 173 to 188: a new global Environment, then the statements in
  order, their values dropped; the global Environment is returned.
\<close>

fun run_stmts ::
  "nat \<Rightarrow> Statement list \<Rightarrow> env_ptr \<Rightarrow> string \<Rightarrow> state \<Rightarrow> ((error + env_ptr) \<times> state) option"
where
  "run_stmts k [] global_env scoping_mode s = Some (Inr global_env, s)"
| "run_stmts k (stmt # rest) global_env scoping_mode s =
     (case execute_stmt k stmt global_env scoping_mode s of
        None \<Rightarrow> None
      | Some (Inl err, s') \<Rightarrow> Some (Inl err, s')
      | Some (Inr r, s') \<Rightarrow> run_stmts k rest global_env scoping_mode s')"

definition run_program ::
  "nat \<Rightarrow> Statement list \<Rightarrow> string \<Rightarrow> state \<Rightarrow> ((error + env_ptr) \<times> state) option"
where
  "run_program k program scoping_mode s =
     (case new_Environment None s of
        (global_env, s1) \<Rightarrow> run_stmts k program global_env scoping_mode s1)"

text \<open>\<open>example_program\<close>, lines 198 to 207.\<close>

definition example_program :: "Statement list" where
  "example_program =
     [ASSIGN ''x'' (INT_LIT 10),
      DEF ''f'' [PRINT (VAR ''x'')],
      DEF ''g'' [ASSIGN ''x'' (INT_LIT 20), CALL ''f'']]"

text \<open>
  One half of \<open>main\<close> (lines 216 to 219, and 225 to 227): run the program, then
  execute the statement \<open>call_g\<close> in the Environment that \<open>run_program\<close> returned.
\<close>

definition run_then_call ::
  "nat \<Rightarrow> Statement list \<Rightarrow> string \<Rightarrow> string \<Rightarrow> state \<Rightarrow> ((error + Value) \<times> state) option"
where
  "run_then_call k program x scoping_mode s =
     (case run_program k program scoping_mode s of
        None \<Rightarrow> None
      | Some (Inl err, s1) \<Rightarrow> Some (Inl err, s1)
      | Some (Inr global_env, s1) \<Rightarrow> execute_stmt k (CALL x) global_env scoping_mode s1)"

section \<open>States and programs used as concrete inputs\<close>

text \<open>
  A global Environment (address 0) binding \<open>x\<close> to 10, and a child of it (address 1)
  with no binding of its own.
\<close>

definition shadow_state :: state where
  "shadow_state =
     \<lparr>envs = [Some \<lparr>vars = [''x'' \<mapsto> Value_int 10], parent = None\<rparr>,
              Some \<lparr>vars = Map.empty, parent = Some 0\<rparr>],
      funcs = [], out = []\<rparr>"

text \<open>
  A function that rebinds its own name to an integer and then calls that name, and the
  state in which \<open>run_program\<close> leaves the machine after defining it.
\<close>

definition self_shadow_program :: "Statement list" where
  "self_shadow_program = [DEF ''f'' [ASSIGN ''f'' (INT_LIT 1), CALL ''f'']]"

definition self_shadow_state :: state where
  "self_shadow_state =
     \<lparr>envs = [Some \<lparr>vars = [''f'' \<mapsto> Value_func 0], parent = None\<rparr>],
      funcs = [\<lparr>name = ''f'', body = [ASSIGN ''f'' (INT_LIT 1), CALL ''f''],
                definition_env = Some 0\<rparr>],
      out = []\<rparr>"

text \<open>
  A name is bound nowhere in the chain that starts at \<open>a\<close>: every Environment of the
  chain is live and has no local binding for the name, and the chain ends in an
  Environment without parent.
\<close>

inductive unbound_in_chain :: "state \<Rightarrow> env_ptr \<Rightarrow> string \<Rightarrow> bool" where
  root: "env_at s a = Some e \<Longrightarrow> vars e n = None \<Longrightarrow> parent e = None
         \<Longrightarrow> unbound_in_chain s a n"
| step: "env_at s a = Some e \<Longrightarrow> vars e n = None \<Longrightarrow> parent e = Some p
         \<Longrightarrow> unbound_in_chain s p n \<Longrightarrow> unbound_in_chain s a n"

code_pred unbound_in_chain .

text \<open>
  The state in which \<open>run_program\<close> leaves the machine after \<open>example_program\<close>,
  started from \<open>init_state\<close> (in either mode: the program defines and calls nothing).
\<close>

definition example_state :: state where
  "example_state =
     \<lparr>envs = [Some \<lparr>vars = [''x'' \<mapsto> Value_int 10, ''f'' \<mapsto> Value_func 0,
                              ''g'' \<mapsto> Value_func 1],
                      parent = None\<rparr>],
      funcs = [\<lparr>name = ''f'', body = [PRINT (VAR ''x'')], definition_env = Some 0\<rparr>,
               \<lparr>name = ''g'', body = [ASSIGN ''x'' (INT_LIT 20), CALL ''f''],
                definition_env = Some 0\<rparr>],
      out = []\<rparr>"

text \<open>A function that assigns a local variable and prints a free one, and one with an
  empty body.\<close>

definition probe_function :: Function where
  "probe_function =
     \<lparr>name = ''h'', body = [ASSIGN ''y'' (INT_LIT 3), PRINT (VAR ''x'')],
      definition_env = Some 0\<rparr>"

definition empty_function :: Function where
  "empty_function = \<lparr>name = ''e'', body = [], definition_env = Some 0\<rparr>"

text \<open>
  A program in which \<open>f\<close> is invoked while an invocation of \<open>f\<close> is running, and
  which returns under dynamic scoping:
  \<^verbatim>\<open>x = 1;  def stop: (nothing);  def f: print(x); x = 7; next();
  def next: next = stop; f()\<close>
  and the state in which \<open>run_program\<close> leaves the machine after it.
\<close>

definition nested_program :: "Statement list" where
  "nested_program =
     [ASSIGN ''x'' (INT_LIT 1),
      DEF ''stop'' [],
      DEF ''f'' [PRINT (VAR ''x''), ASSIGN ''x'' (INT_LIT 7), CALL ''next''],
      DEF ''next'' [ASSIGN ''next'' (VAR ''stop''), CALL ''f'']]"

definition nested_state :: state where
  "nested_state =
     \<lparr>envs = [Some \<lparr>vars = [''x'' \<mapsto> Value_int 1, ''stop'' \<mapsto> Value_func 0,
                              ''f'' \<mapsto> Value_func 1, ''next'' \<mapsto> Value_func 2],
                      parent = None\<rparr>],
      funcs = [\<lparr>name = ''stop'', body = [], definition_env = Some 0\<rparr>,
               \<lparr>name = ''f'',
                body = [PRINT (VAR ''x''), ASSIGN ''x'' (INT_LIT 7), CALL ''next''],
                definition_env = Some 0\<rparr>,
               \<lparr>name = ''next'', body = [ASSIGN ''next'' (VAR ''stop''), CALL ''f''],
                definition_env = Some 0\<rparr>],
      out = []\<rparr>"

text \<open>
  \<open>frame s s' X\<close>: from \<open>s\<close> to \<open>s'\<close> the Environment heap has only grown, the
  Environments of \<open>s\<close> outside \<open>X\<close> are unchanged, and every Environment created
  since has been deleted.
\<close>

definition frame :: "state \<Rightarrow> state \<Rightarrow> env_ptr set \<Rightarrow> bool" where
  "frame s s' X \<longleftrightarrow>
     length (envs s) \<le> length (envs s')
     \<and> (\<forall>a < length (envs s). a \<notin> X \<longrightarrow> envs s' ! a = envs s ! a)
     \<and> (\<forall>a. length (envs s) \<le> a \<and> a < length (envs s') \<longrightarrow> envs s' ! a = None)"

section \<open>Invocation as a relation\<close>







section \<open>The call budget\<close>

lemma Function_call_Suc:
  "Function_call (Suc k) fn call_env scoping_mode s =
     (case call_body k (body fn) Value_default (length (envs s)) scoping_mode
             (snd (new_Environment
                (if scoping_mode = ''static'' then definition_env fn else Some call_env) s)) of
        None \<Rightarrow> None
      | Some (Inl err, s2) \<Rightarrow> Some (Inl err, s2)
      | Some (Inr result, s2) \<Rightarrow> Some (Inr result, delete_Environment (length (envs s)) s2))"
  by (simp add: new_Environment_def)

lemma budget_mono:
  "(\<forall>r. execute_stmt k st env scoping_mode s = Some r
      \<longrightarrow> execute_stmt (Suc k) st env scoping_mode s = Some r)"
  "(\<forall>r. Function_call k fn call_env scoping_mode s = Some r
      \<longrightarrow> Function_call (Suc k) fn call_env scoping_mode s = Some r)"
  "(\<forall>r. call_body k stmts r0 env scoping_mode s = Some r
      \<longrightarrow> call_body (Suc k) stmts r0 env scoping_mode s = Some r)"
proof (induction k st env scoping_mode s and k fn call_env scoping_mode s
         and k stmts r0 env scoping_mode s
       rule: execute_stmt_Function_call_call_body.induct)
  case (3 k x env scoping_mode s)
  then show ?case
    by (auto split: option.splits sum.splits if_splits)
next
  case (6 k fn call_env scoping_mode s)
  let ?p = "if scoping_mode = ''static'' then definition_env fn else Some call_env"
  have n: "(if scoping_mode = ''static'' then new_Environment (definition_env fn) s
            else new_Environment (Some call_env) s) = (length (envs s), snd (new_Environment ?p s))"
    by (simp add: new_Environment_def)
  note ih = 6 [OF n [symmetric], rule_format]
  show ?case
  proof (intro allI impI)
    fix r
    assume a: "Function_call (Suc k) fn call_env scoping_mode s = Some r"
    then obtain r' where
      b: "call_body k (body fn) Value_default (length (envs s)) scoping_mode
            (snd (new_Environment ?p s)) = Some r'"
      by (auto simp: new_Environment_def split: option.splits if_splits)
    from a b ih [OF b] show "Function_call (Suc (Suc k)) fn call_env scoping_mode s = Some r"
      by (simp only: Function_call_Suc)
  qed
next
  case (8 k stmt rest result env scoping_mode s)
  show ?case
  proof (intro allI impI)
    fix r
    assume a: "call_body k (stmt # rest) result env scoping_mode s = Some r"
    then obtain r1 where b: "execute_stmt k stmt env scoping_mode s = Some r1"
      by (auto split: option.splits)
    then have b': "execute_stmt (Suc k) stmt env scoping_mode s = Some r1"
      using 8(1) by blast
    show "call_body (Suc k) (stmt # rest) result env scoping_mode s = Some r"
    proof (cases r1)
      case (Pair x y)
      show ?thesis
      proof (cases x)
        case (Inl e)
        with a b b' Pair show ?thesis by auto
      next
        case (Inr v)
        with a b Pair have "call_body k rest v env scoping_mode y = Some r" by simp
        then have "call_body (Suc k) rest v env scoping_mode y = Some r"
          using 8(2) [OF b Pair [symmetric] Inr] by blast
        with b' Pair Inr show ?thesis by auto
      qed
    qed
  qed
qed simp_all


lemma budget_le_call:
  assumes "k \<le> k'" and "Function_call k fn call_env scoping_mode s = Some r"
  shows "Function_call k' fn call_env scoping_mode s = Some r"
  using assms
proof (induction rule: dec_induct)
  case base
  then show ?case by simp
next
  case (step n)
  then show ?case using budget_mono(2) by blast
qed


section \<open>The canonical example\<close>

lemmas run_defs =
  run_then_call_def run_program_def new_Environment_def new_Function_def
  delete_Environment_def Environment_set_def env_at_def
  Value_int_def Value_func_def Value_default_def

text \<open>
  C1. The example program \<open>x = 10; def f: print(x); def g: x = 20; f()\<close>, run in a new
  global Environment and followed by the top-level call of \<open>g\<close>, in mode
  \<open>"static"\<close>: the run returns, and what it adds to the output is the single integer
  10. This holds from every machine state (so also for a run that follows another one)
  and for every budget of at least two nested calls. The value of the call is
  \<open>Value(10)\<close>, the value that \<open>f\<close> read for \<open>x\<close> through its definition
  Environment; the binding \<open>x = 20\<close> made in the invocation of \<open>g\<close> is not seen.
\<close>

theorem static_run_prints_10:
  "map_option (\<lambda>(r, s'). (r, out s'))
     (run_then_call (Suc (Suc k)) example_program ''g'' ''static'' s)
   = Some (Inr (Value_int 10), out s @ [Some 10])"
  by (simp add: run_defs example_program_def Environment_get.simps nth_append)

text \<open>
  C2. The same program, from any machine state, in mode \<open>"dynamic"\<close>: the run
  returns and adds the single integer 20 to the output. \<open>f\<close> reads \<open>x\<close> through
  the Environment of its caller, the invocation of \<open>g\<close>, which binds \<open>x = 20\<close>.
\<close>

theorem dynamic_run_prints_20:
  "map_option (\<lambda>(r, s'). (r, out s'))
     (run_then_call (Suc (Suc k)) example_program ''g'' ''dynamic'' s)
   = Some (Inr (Value_int 20), out s @ [Some 20])"
  by (simp add: run_defs example_program_def Environment_get.simps nth_append)

section \<open>Environment: set and get\<close>

lemma env_at_set_same:
  "env_at s E = Some e \<Longrightarrow> env_at (s\<lparr>envs := (envs s)[E := Some e']\<rparr>) E = Some e'"
  by (auto simp: env_at_def split: if_splits)

lemma env_at_set_other:
  "a \<noteq> E \<Longrightarrow> env_at (s\<lparr>envs := (envs s)[E := x]\<rparr>) a = env_at s a"
  by (simp add: env_at_def)

text \<open>
  C4. Local-shadow invariant. For a live Environment \<open>E\<close> (with contents \<open>e\<close>),
  \<open>E.set(n, v)\<close> succeeds, and in the state after it \<open>E.get(n)\<close> returns \<open>v\<close>;
  nothing is assumed about the parent chain of \<open>E\<close>, so this holds whatever the
  ancestors bind. The only change is in the local map of \<open>E\<close>, which becomes the old
  map with \<open>n\<close> set to \<open>v\<close>: every other Environment (every ancestor among them), the
  Function heap and the output are as before.
\<close>

theorem set_then_get:
  assumes "env_at s E = Some e"
  shows "\<exists>s'. Environment_set s E n v = Inr s'
           \<and> Environment_get s' E n = Some (Inr v)
           \<and> env_at s' E = Some (e\<lparr>vars := (vars e)(n \<mapsto> v)\<rparr>)
           \<and> (\<forall>a. a \<noteq> E \<longrightarrow> env_at s' a = env_at s a)
           \<and> funcs s' = funcs s \<and> out s' = out s"
proof -
  let ?s' = "s\<lparr>envs := (envs s)[E := Some (e\<lparr>vars := (vars e)(n \<mapsto> v)\<rparr>)]\<rparr>"
  have 1: "Environment_set s E n v = Inr ?s'"
    using assms by (simp add: Environment_set_def)
  have 2: "env_at ?s' E = Some (e\<lparr>vars := (vars e)(n \<mapsto> v)\<rparr>)"
    using assms by (rule env_at_set_same)
  have 3: "Environment_get ?s' E n = Some (Inr v)"
    by (subst Environment_get.simps) (simp add: 2)
  have 4: "\<forall>a. a \<noteq> E \<longrightarrow> env_at ?s' a = env_at s a"
    by (simp add: env_at_set_other)
  show ?thesis using 1 2 3 4 by simp
qed

text \<open>
  At \<open>shadow_state\<close>: the child sees \<open>x = 10\<close> through its parent; after
  \<open>set(x, 20)\<close> on the child, the child reads 20 and the parent still reads 10.
\<close>

theorem set_then_get_witness:
  "env_at shadow_state 1 = Some \<lparr>vars = Map.empty, parent = Some 0\<rparr>
   \<and> Environment_get shadow_state 1 ''x'' = Some (Inr (Value_int 10))
   \<and> (\<exists>s'. Environment_set shadow_state 1 ''x'' (Value_int 20) = Inr s'
          \<and> Environment_get s' 1 ''x'' = Some (Inr (Value_int 20))
          \<and> Environment_get s' 0 ''x'' = Some (Inr (Value_int 10)))"
proof -
  have h: "env_at shadow_state 1 = Some \<lparr>vars = Map.empty, parent = Some 0\<rparr>"
    by (simp add: shadow_state_def env_at_def)
  have g: "Environment_get shadow_state 1 ''x'' = Some (Inr (Value_int 10))"
    by (simp add: shadow_state_def env_at_def Environment_get.simps)
  obtain s' where s': "Environment_set shadow_state 1 ''x'' (Value_int 20) = Inr s'"
     "Environment_get s' 1 ''x'' = Some (Inr (Value_int 20))"
     "\<forall>a. a \<noteq> 1 \<longrightarrow> env_at s' a = env_at shadow_state a"
    using set_then_get [OF h, of "''x''" "Value_int 20"] by blast
  have "env_at s' 0 = env_at shadow_state 0" using s'(3) by simp
  then have "Environment_get s' 0 ''x'' = Some (Inr (Value_int 10))"
    by (subst Environment_get.simps) (simp add: shadow_state_def env_at_def)
  with h g s' show ?thesis by blast
qed

lemma get_delegates:
  "env_at s E = Some e \<Longrightarrow> vars e n = None \<Longrightarrow> parent e = Some p \<Longrightarrow>
   Environment_get s E n = Environment_get s p n"
  by (subst Environment_get.simps) simp

lemma get_at_root:
  "env_at s E = Some e \<Longrightarrow> vars e n = None \<Longrightarrow> parent e = None \<Longrightarrow>
   Environment_get s E n = Some (Inl (UnboundVariable n))"
  by (subst Environment_get.simps) simp

lemma unbound_get:
  "unbound_in_chain s a n \<Longrightarrow> Environment_get s a n = Some (Inl (UnboundVariable n))"
  by (induction rule: unbound_in_chain.induct) (simp_all add: get_delegates get_at_root)

text \<open>
  C5. Chain delegation and unbound failure. For a live Environment \<open>E\<close> with no local
  binding for \<open>n\<close>: if \<open>E\<close> has a parent \<open>p\<close>, \<open>E.get(n)\<close> is exactly
  \<open>p.get(n)\<close> (the same value, the same failure, or neither returns); if \<open>E\<close> has
  no parent, \<open>E.get(n)\<close> throws the runtime error "Variable 'n' not found". So
  evaluating the expression \<open>VAR n\<close> where \<open>n\<close> is bound nowhere in the chain throws
  that error, in either mode, and yields no value.
\<close>

theorem get_chain_delegation:
  "(env_at s E = Some e \<and> vars e n = None \<and> parent e = Some p
      \<longrightarrow> Environment_get s E n = Environment_get s p n)
   \<and> (env_at s E = Some e \<and> vars e n = None \<and> parent e = None
      \<longrightarrow> Environment_get s E n = Some (Inl (UnboundVariable n)))
   \<and> (unbound_in_chain s E n
      \<longrightarrow> execute_expr (VAR n) E scoping_mode s = Some (Inl (UnboundVariable n)))"
  by (simp add: get_delegates get_at_root unbound_get)

text \<open>
  At \<open>shadow_state\<close>: the child delegates \<open>x\<close> to the global Environment, which
  binds it; \<open>y\<close> is bound in neither, and both the lookup at the root and the
  evaluation of \<open>VAR y\<close> in the child throw.
\<close>

theorem get_chain_delegation_witness:
  "env_at shadow_state 1 = Some \<lparr>vars = Map.empty, parent = Some 0\<rparr>
   \<and> Environment_get shadow_state 1 ''x'' = Environment_get shadow_state 0 ''x''
   \<and> Environment_get shadow_state 0 ''x'' = Some (Inr (Value_int 10))
   \<and> env_at shadow_state 0 = Some \<lparr>vars = [''x'' \<mapsto> Value_int 10], parent = None\<rparr>
   \<and> Environment_get shadow_state 0 ''y'' = Some (Inl (UnboundVariable ''y''))
   \<and> unbound_in_chain shadow_state 1 ''y''
   \<and> execute_expr (VAR ''y'') 1 ''static'' shadow_state = Some (Inl (UnboundVariable ''y''))"
proof -
  have h1: "env_at shadow_state 1 = Some \<lparr>vars = Map.empty, parent = Some 0\<rparr>"
    by (simp add: shadow_state_def env_at_def)
  have h0: "env_at shadow_state 0 = Some \<lparr>vars = [''x'' \<mapsto> Value_int 10], parent = None\<rparr>"
    by (simp add: shadow_state_def env_at_def)
  have u0: "unbound_in_chain shadow_state 0 ''y''"
    by (rule unbound_in_chain.root [OF h0]) simp_all
  have u1: "unbound_in_chain shadow_state 1 ''y''"
    by (rule unbound_in_chain.step [OF h1 _ _ u0]) simp_all
  have g0: "Environment_get shadow_state 0 ''x'' = Some (Inr (Value_int 10))"
    by (subst Environment_get.simps) (simp add: h0)
  note t = get_chain_delegation
  have a: "Environment_get shadow_state 1 ''x'' = Environment_get shadow_state 0 ''x''"
    using t [of shadow_state 1 "\<lparr>vars = Map.empty, parent = Some 0\<rparr>" "''x''" 0] h1 by simp
  have b: "Environment_get shadow_state 0 ''y'' = Some (Inl (UnboundVariable ''y''))"
    using t [of shadow_state 0 "\<lparr>vars = [''x'' \<mapsto> Value_int 10], parent = None\<rparr>" "''y''"] h0
    by simp
  have c: "execute_expr (VAR ''y'') 1 ''static'' shadow_state = Some (Inl (UnboundVariable ''y''))"
    using t [of shadow_state 1 _ "''y''"] u1 by simp
  show ?thesis using h1 h0 u1 g0 a b c by simp
qed

section \<open>The CALL statement\<close>

lemma get_error_kind:
  assumes "Environment_get s a n = Some r"
  shows "r = Inl e \<longrightarrow> e = UnboundVariable n \<or> e = invalid_pointer"
proof (rule Environment_get.raw_induct
    [where P = "\<lambda>s a n r. r = Inl e \<longrightarrow> e = UnboundVariable n \<or> e = invalid_pointer", OF _ assms])
  fix get s a n r
  assume ih: "\<And>s a n r. get s a n = Some r \<Longrightarrow>
                r = Inl e \<longrightarrow> e = UnboundVariable n \<or> e = invalid_pointer"
    and eq: "(case env_at s a of
        None \<Rightarrow> Some (Inl invalid_pointer)
      | Some e \<Rightarrow>
          (case vars e n of
             Some v \<Rightarrow> Some (Inr v)
           | None \<Rightarrow>
               (case parent e of
                  Some p \<Rightarrow> get s p n
                | None \<Rightarrow> Some (Inl (UnboundVariable n))))) = Some r"
  from eq show "r = Inl e \<longrightarrow> e = UnboundVariable n \<or> e = invalid_pointer"
    by (auto split: option.splits dest: ih)
qed

lemma NotAFunction_neq:
  "NotAFunction x \<noteq> UnboundVariable n" "NotAFunction x \<noteq> invalid_pointer"
  "UnboundVariable n \<noteq> NotAFunction x" "invalid_pointer \<noteq> NotAFunction x"
  by (simp_all add: UnboundVariable_def NotAFunction_def)

text \<open>
  C6, as stated, fails in one direction. \<open>run_program\<close> on \<open>def f: f = 1; f()\<close>
  leaves \<open>self_shadow_state\<close>, where \<open>f\<close> resolves in the global Environment to a
  FUNC Value. Executing \<open>CALL f\<close> there invokes the function; its body binds \<open>f\<close>
  to 1 in the invocation's own Environment and executes \<open>CALL f\<close> again, which throws
  "'f' is not a function". Nothing catches the exception, so the outer \<open>CALL f\<close>
  fails with that error although its own name resolved to a function. Both modes.
\<close>

theorem call_not_a_function_counterexample:
  "run_program 0 self_shadow_program ''static'' init_state = Some (Inr 0, self_shadow_state)
   \<and> Environment_get self_shadow_state 0 ''f'' = Some (Inr (Value_func 0))
   \<and> type (Value_func 0) = Value_FUNC
   \<and> map_option fst (execute_stmt 2 (CALL ''f'') 0 ''static'' self_shadow_state)
       = Some (Inl (NotAFunction ''f''))
   \<and> map_option fst (execute_stmt 2 (CALL ''f'') 0 ''dynamic'' self_shadow_state)
       = Some (Inl (NotAFunction ''f''))"
  by (simp add: run_defs self_shadow_program_def self_shadow_state_def init_state_def
      Environment_get.simps numeral_2_eq_2)

text \<open>
  C6, amended. (1) If the name resolves to a Value that is not a FUNC, \<open>CALL\<close> throws
  "'name' is not a function" and the state is unchanged. (2) If it resolves to a FUNC
  Value, \<open>CALL\<close> is the invocation of that Function with the current Environment as
  call-site Environment: its value, its failure or its not returning is that of the
  invocation. (3) If \<open>CALL\<close> fails with "'name' is not a function", the name did
  resolve to a Value, and either that Value is not a FUNC (and the state is unchanged) or
  it is a FUNC and the failure is the one the invocation ended with.
\<close>

theorem call_stmt:
  "(Environment_get s env x = Some (Inr v) \<and> type v \<noteq> Value_FUNC
      \<longrightarrow> execute_stmt k (CALL x) env scoping_mode s = Some (Inl (NotAFunction x), s))
   \<and> (Environment_get s env x = Some (Inr v) \<and> type v = Value_FUNC
        \<and> func_val v = Some f \<and> f < length (funcs s)
      \<longrightarrow> execute_stmt k (CALL x) env scoping_mode s
          = Function_call k (funcs s ! f) env scoping_mode s)
   \<and> (execute_stmt k (CALL x) env scoping_mode s = Some (Inl (NotAFunction x), s')
      \<longrightarrow> (\<exists>w. Environment_get s env x = Some (Inr w) \<and>
             (type w \<noteq> Value_FUNC \<and> s' = s
              \<or> type w = Value_FUNC \<and>
                (\<exists>g. func_val w = Some g \<and> g < length (funcs s) \<and>
                   Function_call k (funcs s ! g) env scoping_mode s
                     = Some (Inl (NotAFunction x), s')))))"
proof (intro conjI impI)
  assume "Environment_get s env x = Some (Inr v) \<and> type v \<noteq> Value_FUNC"
  then show "execute_stmt k (CALL x) env scoping_mode s = Some (Inl (NotAFunction x), s)"
    by simp
next
  assume "Environment_get s env x = Some (Inr v) \<and> type v = Value_FUNC
        \<and> func_val v = Some f \<and> f < length (funcs s)"
  then show "execute_stmt k (CALL x) env scoping_mode s
          = Function_call k (funcs s ! f) env scoping_mode s"
    by simp
next
  assume a: "execute_stmt k (CALL x) env scoping_mode s = Some (Inl (NotAFunction x), s')"
  show "\<exists>w. Environment_get s env x = Some (Inr w) \<and>
             (type w \<noteq> Value_FUNC \<and> s' = s
              \<or> type w = Value_FUNC \<and>
                (\<exists>g. func_val w = Some g \<and> g < length (funcs s) \<and>
                   Function_call k (funcs s ! g) env scoping_mode s
                     = Some (Inl (NotAFunction x), s')))"
  proof (cases "Environment_get s env x")
    case None
    with a show ?thesis by simp
  next
    case (Some r)
    show ?thesis
    proof (cases r)
      case (Inl e)
      with Some have "e = UnboundVariable x \<or> e = invalid_pointer"
        using get_error_kind [of s env x r e] by simp
      with a Some Inl show ?thesis
        by (auto simp: NotAFunction_neq)
    next
      case (Inr w)
      with a Some show ?thesis
        by (auto simp: NotAFunction_neq split: if_splits option.splits)
    qed
  qed
qed

text \<open>
  At \<open>shadow_state\<close>, \<open>x\<close> resolves from the child to the integer 10 and
  \<open>CALL x\<close> throws; at \<open>self_shadow_state\<close>, \<open>f\<close> resolves to Function 0 and
  \<open>CALL f\<close> is its invocation.
\<close>

theorem call_stmt_witness:
  "Environment_get shadow_state 1 ''x'' = Some (Inr (Value_int 10))
   \<and> type (Value_int 10) \<noteq> Value_FUNC
   \<and> execute_stmt 1 (CALL ''x'') 1 ''static'' shadow_state
       = Some (Inl (NotAFunction ''x''), shadow_state)
   \<and> Environment_get self_shadow_state 0 ''f'' = Some (Inr (Value_func 0))
   \<and> execute_stmt 2 (CALL ''f'') 0 ''static'' self_shadow_state
       = Function_call 2 (funcs self_shadow_state ! 0) 0 ''static'' self_shadow_state
   \<and> (\<exists>w. Environment_get shadow_state 1 ''x'' = Some (Inr w) \<and> type w \<noteq> Value_FUNC)"
proof -
  have g1: "Environment_get shadow_state 1 ''x'' = Some (Inr (Value_int 10))"
    by (simp add: shadow_state_def env_at_def Environment_get.simps)
  have t1: "type (Value_int 10) \<noteq> Value_FUNC"
    by (simp add: Value_int_def)
  have g2: "Environment_get self_shadow_state 0 ''f'' = Some (Inr (Value_func 0))"
    by (simp add: self_shadow_state_def env_at_def Environment_get.simps)
  have t2: "type (Value_func 0) = Value_FUNC" "func_val (Value_func 0) = Some 0"
    "0 < length (funcs self_shadow_state)"
    by (simp_all add: Value_func_def self_shadow_state_def)
  have a: "execute_stmt 1 (CALL ''x'') 1 ''static'' shadow_state
       = Some (Inl (NotAFunction ''x''), shadow_state)"
    using call_stmt [where s = shadow_state and env = 1 and x = "''x''"
        and v = "Value_int 10" and k = 1 and scoping_mode = "''static''"] g1 t1
    by blast
  have b: "execute_stmt 2 (CALL ''f'') 0 ''static'' self_shadow_state
       = Function_call 2 (funcs self_shadow_state ! 0) 0 ''static'' self_shadow_state"
    using call_stmt [where s = self_shadow_state and env = 0 and x = "''f''"
        and v = "Value_func 0" and f = 0 and k = 2 and scoping_mode = "''static''"] g2 t2
    by blast
  have c: "\<exists>w. Environment_get shadow_state 1 ''x'' = Some (Inr w) \<and> type w \<noteq> Value_FUNC"
    using call_stmt [where s = shadow_state and env = 1 and x = "''x''"
        and k = 1 and scoping_mode = "''static''" and s' = shadow_state] a g1 t1
    by blast
  show ?thesis using g1 t1 a g2 b c by blast
qed

section \<open>Function invocation\<close>






subsection \<open>The value of an invocation\<close>

lemma call_body_single:
  "call_body k [st] r env m s = execute_stmt k st env m s"
  by (auto split: option.splits sum.splits prod.splits)

lemma call_body_append:
  "call_body k (xs @ ys) r env m s =
     (case call_body k xs r env m s of
        None \<Rightarrow> None
      | Some (Inl err, s1) \<Rightarrow> Some (Inl err, s1)
      | Some (Inr r1, s1) \<Rightarrow> call_body k ys r1 env m s1)"
  by (induction xs arbitrary: r s) (auto split: option.splits sum.splits prod.splits)

lemma call_body_last:
  assumes "call_body k stmts r env m s = Some (Inr v, s')" and "stmts \<noteq> []"
  shows "\<exists>r1 s1. call_body k (butlast stmts) r env m s = Some (Inr r1, s1)
            \<and> execute_stmt k (last stmts) env m s1 = Some (Inr v, s')"
proof -
  have "call_body k (butlast stmts @ [last stmts]) r env m s = Some (Inr v, s')"
    using assms by simp
  then show ?thesis
    unfolding call_body_append call_body_single
    by (auto split: option.splits sum.splits prod.splits)
qed

text \<open>
  C7. An invocation that completes without failure returns \<open>Value()\<close>, the INT 0,
  when the body is empty; otherwise the body without its last statement completed in the
  invocation's Environment, and the value returned is the value of the last statement,
  executed in that Environment in the state the others left.
\<close>

theorem call_returns_last_value:
  assumes "Function_call (Suc k) fn call_env scoping_mode s = Some (Inr v, s')"
  shows "(body fn = [] \<longrightarrow> v = Value_default)
       \<and> (body fn \<noteq> [] \<longrightarrow>
            (\<exists>r1 s1 s2.
               call_body k (butlast (body fn)) Value_default (length (envs s)) scoping_mode
                 (snd (new_Environment
                    (if scoping_mode = ''static'' then definition_env fn else Some call_env) s))
                 = Some (Inr r1, s1)
               \<and> execute_stmt k (last (body fn)) (length (envs s)) scoping_mode s1
                   = Some (Inr v, s2)
               \<and> s' = delete_Environment (length (envs s)) s2))"
proof -
  let ?p = "if scoping_mode = ''static'' then definition_env fn else Some call_env"
  let ?s0 = "snd (new_Environment ?p s)"
  let ?env = "length (envs s)"
  from assms obtain s2 where
    b: "call_body k (body fn) Value_default ?env scoping_mode ?s0 = Some (Inr v, s2)"
    and d: "s' = delete_Environment ?env s2"
    by (auto simp: new_Environment_def split: option.splits sum.splits prod.splits if_splits)
  show ?thesis
  proof (intro conjI impI)
    assume "body fn = []"
    with b show "v = Value_default" by simp
  next
    assume "body fn \<noteq> []"
    from call_body_last [OF b this] d
    show "\<exists>r1 s1 s2.
               call_body k (butlast (body fn)) Value_default ?env scoping_mode ?s0
                 = Some (Inr r1, s1)
               \<and> execute_stmt k (last (body fn)) ?env scoping_mode s1 = Some (Inr v, s2)
               \<and> s' = delete_Environment ?env s2"
      by blast
  qed
qed

text \<open>
  At \<open>shadow_state\<close>: \<open>probe_function\<close> returns the value of its last statement,
  \<open>print(x)\<close>, which is 10; \<open>empty_function\<close> returns \<open>Value()\<close>.
\<close>

theorem call_returns_last_value_witness:
  "(\<exists>s'. Function_call 1 probe_function 1 ''static'' shadow_state
            = Some (Inr (Value_int 10), s')
        \<and> body probe_function \<noteq> []
        \<and> last (body probe_function) = PRINT (VAR ''x'')
        \<and> (\<exists>s1 s2. execute_stmt 0 (PRINT (VAR ''x'')) 2 ''static'' s1
                      = Some (Inr (Value_int 10), s2)
                    \<and> s' = delete_Environment 2 s2))
   \<and> (\<exists>s'. Function_call 1 empty_function 1 ''static'' shadow_state
             = Some (Inr Value_default, s'))"
proof -
  obtain s' where h: "Function_call (Suc 0) probe_function 1 ''static'' shadow_state
            = Some (Inr (Value_int 10), s')"
    by (simp add: run_defs probe_function_def shadow_state_def Environment_get.simps)
  have n: "body probe_function \<noteq> []" "last (body probe_function) = PRINT (VAR ''x'')"
    "length (envs shadow_state) = 2"
    by (simp_all add: probe_function_def shadow_state_def)
  have "\<exists>s1 s2. execute_stmt 0 (PRINT (VAR ''x'')) 2 ''static'' s1
                      = Some (Inr (Value_int 10), s2)
                    \<and> s' = delete_Environment 2 s2"
    using call_returns_last_value [OF h] n by auto
  moreover have "\<exists>s'. Function_call 1 empty_function 1 ''static'' shadow_state
             = Some (Inr Value_default, s')"
    by (simp add: run_defs empty_function_def shadow_state_def)
  ultimately show ?thesis using h n by auto
qed

subsection \<open>Isolation of completed invocations\<close>

lemma frame_refl: "frame s s X"
  by (auto simp: frame_def)

lemma frame_out: "frame s (s\<lparr>out := x\<rparr>) X"
  by (auto simp: frame_def)

lemma frame_trans:
  assumes "frame s s1 {env}" and "frame s1 s2 {env}" and "env < length (envs s)"
  shows "frame s s2 {env}"
  unfolding frame_def
proof (intro conjI allI impI)
  show "length (envs s) \<le> length (envs s2)"
    using assms by (simp add: frame_def)
next
  fix a assume "a < length (envs s)" "a \<notin> {env}"
  moreover from this have "a < length (envs s1)" using assms(1) by (simp add: frame_def)
  ultimately show "envs s2 ! a = envs s ! a"
    using assms(1,2) by (simp add: frame_def)
next
  fix a assume a: "length (envs s) \<le> a \<and> a < length (envs s2)"
  show "envs s2 ! a = None"
  proof (cases "a < length (envs s1)")
    case True
    with a assms(3) have "a \<notin> {env}" "envs s1 ! a = None"
      using assms(1) by (auto simp: frame_def)
    with True show ?thesis using assms(2) by (simp add: frame_def)
  next
    case False
    with a show ?thesis using assms(2) by (simp add: frame_def)
  qed
qed

lemma frame_set:
  "Environment_set s env x v = Inr s' \<Longrightarrow> frame s s' {env}"
  by (auto simp: Environment_set_def frame_def split: option.splits)

lemma frame_def_stmt:
  "Environment_set (s\<lparr>funcs := fs\<rparr>) env x v = Inr s' \<Longrightarrow> frame s s' {env}"
  by (auto simp: Environment_set_def frame_def env_at_def split: option.splits if_splits)

lemma frame_call:
  assumes "frame (snd (new_Environment p s)) s2 {length (envs s)}"
  shows "frame s (delete_Environment (length (envs s)) s2) {}"
  unfolding frame_def
proof (intro conjI allI impI)
  show "length (envs s) \<le> length (envs (delete_Environment (length (envs s)) s2))"
    using assms by (simp add: frame_def new_Environment_def delete_Environment_def)
next
  fix a assume "a < length (envs s)" "a \<notin> {}"
  then show "envs (delete_Environment (length (envs s)) s2) ! a = envs s ! a"
    using assms by (simp add: frame_def new_Environment_def delete_Environment_def nth_append)
next
  fix a
  assume a: "length (envs s) \<le> a \<and> a < length (envs (delete_Environment (length (envs s)) s2))"
  show "envs (delete_Environment (length (envs s)) s2) ! a = None"
  proof (cases "a = length (envs s)")
    case True
    with a show ?thesis by (simp add: delete_Environment_def)
  next
    case False
    with a have "Suc (length (envs s)) \<le> a" "a < length (envs s2)"
      by (simp_all add: delete_Environment_def)
    with False show ?thesis
      using assms by (simp add: frame_def new_Environment_def delete_Environment_def)
  qed
qed

lemma frame_weaken: "frame s s' {} \<Longrightarrow> frame s s' X"
  by (simp add: frame_def)

lemma frame_env_at: 
  assumes "frame s s' {}" shows "env_at s' a = env_at s a"
proof (cases "a < length (envs s)")
  case True
  then show ?thesis using assms by (auto simp: frame_def env_at_def)
next
  case False
  then show ?thesis using assms by (auto simp: frame_def env_at_def)
qed

lemma get_transfer:
  assumes eq: "\<And>a. env_at s' a = env_at s a"
    and g: "Environment_get s a n = Some r"
  shows "Environment_get s' a n = Some r"
proof -
  have "s = s \<longrightarrow> Environment_get s' a n = Some r"
  proof (rule Environment_get.raw_induct
    [where P = "\<lambda>t a n r. t = s \<longrightarrow> Environment_get s' a n = Some r", OF _ g])
    fix get t a n r
    assume ih: "\<And>t a n r. get t a n = Some r \<Longrightarrow> t = s \<longrightarrow> Environment_get s' a n = Some r"
      and e: "(case env_at t a of
        None \<Rightarrow> Some (Inl invalid_pointer)
      | Some e \<Rightarrow>
          (case vars e n of
             Some v \<Rightarrow> Some (Inr v)
           | None \<Rightarrow>
               (case parent e of
                  Some p \<Rightarrow> get t p n
                | None \<Rightarrow> Some (Inl (UnboundVariable n))))) = Some r"
    show "t = s \<longrightarrow> Environment_get s' a n = Some r"
    proof
      assume "t = s"
      with e show "Environment_get s' a n = Some r"
        by (subst Environment_get.simps) (auto simp: eq split: option.splits dest: ih)
    qed
  qed
  then show ?thesis by simp
qed

lemma get_cong:
  assumes "\<And>a. env_at s' a = env_at s a"
  shows "Environment_get s' a n = Environment_get s a n"
proof (cases "Environment_get s a n")
  case (Some r)
  then show ?thesis using get_transfer [OF assms] by simp
next
  case None
  show ?thesis
  proof (cases "Environment_get s' a n")
    case (Some r)
    then have "Environment_get s a n = Some r"
      using get_transfer [of s s' a n r] assms by simp
    with None show ?thesis by simp
  qed (simp add: None)
qed

lemma frame_exec:
  "(\<forall>v s'. env < length (envs s) \<longrightarrow>
       execute_stmt k st env scoping_mode s = Some (Inr v, s') \<longrightarrow> frame s s' {env})"
  "(\<forall>v s'. Function_call k fn call_env scoping_mode s = Some (Inr v, s') \<longrightarrow> frame s s' {})"
  "(\<forall>v s'. env < length (envs s) \<longrightarrow>
       call_body k stmts r env scoping_mode s = Some (Inr v, s') \<longrightarrow> frame s s' {env})"
proof (induction k st env scoping_mode s and k fn call_env scoping_mode s
         and k stmts r env scoping_mode s
       rule: execute_stmt_Function_call_call_body.induct)
  case (1 k x e env scoping_mode s)
  show ?case
    by (auto split: option.splits sum.splits dest: frame_set)
next
  case (2 k e env scoping_mode s)
  show ?case
    by (auto split: option.splits sum.splits simp: frame_out)
next
  case (3 k x env scoping_mode s)
  then show ?case
    by (auto split: option.splits sum.splits if_splits intro: frame_weaken)
next
  case (4 k x b env scoping_mode s)
  show ?case
    by (auto simp: new_Function_def split: sum.splits dest: frame_def_stmt)
next
  case (5 fn call_env scoping_mode s)
  show ?case by simp
next
  case (6 k fn call_env scoping_mode s)
  let ?p = "if scoping_mode = ''static'' then definition_env fn else Some call_env"
  have n: "(if scoping_mode = ''static'' then new_Environment (definition_env fn) s
            else new_Environment (Some call_env) s) = (length (envs s), snd (new_Environment ?p s))"
    by (simp add: new_Environment_def)
  have len: "length (envs s) < length (envs (snd (new_Environment ?p s)))"
    by (simp add: new_Environment_def)
  note ih = 6 [OF n [symmetric], rule_format, OF len]
  show ?case
  proof (intro allI impI)
    fix v s'
    assume a: "Function_call (Suc k) fn call_env scoping_mode s = Some (Inr v, s')"
    then obtain s2 where
      b: "call_body k (body fn) Value_default (length (envs s)) scoping_mode
            (snd (new_Environment ?p s)) = Some (Inr v, s2)"
      and d: "s' = delete_Environment (length (envs s)) s2"
      by (auto simp: new_Environment_def split: option.splits sum.splits prod.splits if_splits)
    from ih [OF b] d show "frame s s' {}"
      by (simp add: frame_call)
  qed
next
  case (7 k result env scoping_mode s)
  show ?case by (simp add: frame_refl)
next
  case (8 k stmt rest result env scoping_mode s)
  show ?case
  proof (intro allI impI)
    fix v s'
    assume l: "env < length (envs s)"
      and a: "call_body k (stmt # rest) result env scoping_mode s = Some (Inr v, s')"
    then obtain r1 s1 where
      b: "execute_stmt k stmt env scoping_mode s = Some (Inr r1, s1)"
      and c: "call_body k rest r1 env scoping_mode s1 = Some (Inr v, s')"
      by (auto split: option.splits sum.splits prod.splits)
    have f1: "frame s s1 {env}" using 8(1) l b by blast
    then have l1: "env < length (envs s1)" using l by (simp add: frame_def)
    have f2: "frame s1 s' {env}" using 8(2) [OF b refl refl] l1 c by blast
    show "frame s s' {env}" using f1 f2 l by (rule frame_trans)
  qed
qed

text \<open>
  C8, as stated, fails for an invocation that runs inside another invocation of the same
  Function under dynamic scoping. In \<open>nested_program\<close> the top-level call of \<open>f\<close>
  prints the global \<open>x\<close> (1), binds \<open>x = 7\<close> in its own Environment and calls
  \<open>next\<close>, which calls \<open>f\<close> again. The first statement of this second invocation of
  \<open>f\<close> prints \<open>x\<close>, and it prints 7: the only binding of \<open>x\<close> to 7 is the one
  the first invocation made locally, found through the chain of call-site Environments.
  (The second invocation then finds \<open>next\<close> rebound to \<open>stop\<close> and the run ends.)
\<close>

theorem nested_invocation_counterexample:
  "run_program 0 nested_program ''dynamic'' init_state = Some (Inr 0, nested_state)
   \<and> Environment_get nested_state 0 ''x'' = Some (Inr (Value_int 1))
   \<and> map_option (out \<circ> snd) (execute_stmt 4 (CALL ''f'') 0 ''dynamic'' nested_state)
       = Some [Some 1, Some 7]"
  by (simp add: run_defs nested_program_def nested_state_def init_state_def
      Environment_get.simps eval_nat_numeral nth_append)

text \<open>
  C8, amended: isolation of completed invocations, in every mode. When an invocation
  completes without failure, every Environment is exactly as before it, the address of
  the invocation's own Environment holds no Environment any more, and therefore every
  lookup, from any Environment and for any name, returns after the invocation what it
  returned before. Nothing that a later invocation looks up can come from a binding that
  the completed one assigned locally.
\<close>

theorem completed_invocation_leaves_no_binding:
  assumes "Function_call k fn call_env scoping_mode s = Some (Inr v, s')"
  shows "(\<forall>a. env_at s' a = env_at s a)
       \<and> env_at s' (length (envs s)) = None
       \<and> (\<forall>a n. Environment_get s' a n = Environment_get s a n)"
proof -
  have f: "frame s s' {}" using frame_exec(2) assms by blast
  then have e: "\<And>a. env_at s' a = env_at s a" by (rule frame_env_at)
  have "env_at s (length (envs s)) = None" by (simp add: env_at_def)
  with e get_cong [of s' s] show ?thesis by simp
qed

text \<open>
  At \<open>shadow_state\<close>: \<open>probe_function\<close> binds \<open>y\<close> locally; after the
  invocation its Environment (address 2) is gone and \<open>y\<close> is unbound as before.
\<close>

theorem completed_invocation_leaves_no_binding_witness:
  "\<exists>s'. Function_call 1 probe_function 1 ''static'' shadow_state
           = Some (Inr (Value_int 10), s')
       \<and> env_at s' 2 = None
       \<and> Environment_get s' 1 ''y'' = Some (Inl (UnboundVariable ''y''))"
proof -
  obtain s' where h: "Function_call 1 probe_function 1 ''static'' shadow_state
            = Some (Inr (Value_int 10), s')"
    by (simp add: run_defs probe_function_def shadow_state_def Environment_get.simps)
  have l: "length (envs shadow_state) = 2"
    by (simp add: shadow_state_def)
  have u: "Environment_get shadow_state 1 ''y'' = Some (Inl (UnboundVariable ''y''))"
    by (simp add: shadow_state_def env_at_def Environment_get.simps)
  note t = completed_invocation_leaves_no_binding [OF h, unfolded l]
  from t have "env_at s' 2 = None" by blast
  moreover from t u have "Environment_get s' 1 ''y'' = Some (Inl (UnboundVariable ''y''))"
    by metis
  ultimately show ?thesis using h by blast
qed

section \<open>The scoping mode as a string\<close>

lemma execute_expr_mode:
  "execute_expr e env scoping_mode s = execute_expr e env m' s"
  by (cases e) simp_all

lemma mode_other:
  "(scoping_mode \<noteq> ''static'' \<longrightarrow>
      execute_stmt k st env scoping_mode s = execute_stmt k st env ''dynamic'' s)"
  "(scoping_mode \<noteq> ''static'' \<longrightarrow>
      Function_call k fn call_env scoping_mode s = Function_call k fn call_env ''dynamic'' s)"
  "(scoping_mode \<noteq> ''static'' \<longrightarrow>
      call_body k stmts r env scoping_mode s = call_body k stmts r env ''dynamic'' s)"
proof (induction k st env scoping_mode s and k fn call_env scoping_mode s
         and k stmts r env scoping_mode s
       rule: execute_stmt_Function_call_call_body.induct)
  case (3 k x env scoping_mode s)
  then show ?case
    by (auto split: option.splits sum.splits)
next
  case (6 k fn call_env scoping_mode s)
  then show ?case
    by (auto simp: new_Environment_def split: option.splits sum.splits prod.splits)
next
  case (8 k stmt rest result env scoping_mode s)
  then show ?case
    by (auto split: option.splits sum.splits prod.splits)
next
  case (1 k x e env scoping_mode s)
  show ?case by (simp add: execute_expr_mode [of e env scoping_mode s "''dynamic''"])
next
  case (2 k e env scoping_mode s)
  show ?case by (simp add: execute_expr_mode [of e env scoping_mode s "''dynamic''"])
qed simp_all

lemma run_stmts_mode:
  "scoping_mode \<noteq> ''static'' \<Longrightarrow>
   run_stmts k p g scoping_mode s = run_stmts k p g ''dynamic'' s"
  by (induction p arbitrary: s)
     (simp_all add: mode_other(1) [of scoping_mode] split: option.splits sum.splits prod.splits)

text \<open>
  C9. \<open>Function::call\<close> compares the mode with the text \<open>"static"\<close> and nothing
  else. For every mode string other than \<open>"static"\<close> the invocation creates its
  Environment with the call-site Environment as parent, and every invocation, every
  statement and every whole run behaves exactly as in mode \<open>"dynamic"\<close>: no mode is
  rejected.
\<close>

theorem unrecognised_mode_is_dynamic:
  assumes "scoping_mode \<noteq> ''static''"
  shows "Function_call (Suc k) fn call_env scoping_mode s =
           (case new_Environment (Some call_env) s of
              (env, s1) \<Rightarrow>
                (case call_body k (body fn) Value_default env scoping_mode s1 of
                   None \<Rightarrow> None
                 | Some (Inl err, s2) \<Rightarrow> Some (Inl err, s2)
                 | Some (Inr result, s2) \<Rightarrow> Some (Inr result, delete_Environment env s2)))
       \<and> Function_call k fn call_env scoping_mode s = Function_call k fn call_env ''dynamic'' s
       \<and> execute_stmt k st env scoping_mode s = execute_stmt k st env ''dynamic'' s
       \<and> run_then_call k program x scoping_mode s = run_then_call k program x ''dynamic'' s"
proof -
  note es = mode_other(1) [rule_format, OF assms]
  have rp: "run_program k program scoping_mode s = run_program k program ''dynamic'' s"
    by (simp add: run_program_def run_stmts_mode [OF assms] split: prod.splits)
  have "run_then_call k program x scoping_mode s = run_then_call k program x ''dynamic'' s"
    by (simp only: run_then_call_def rp es)
  then show ?thesis
    using assms es [of k st env s] mode_other(2) [of scoping_mode k fn call_env s]
    by simp
qed

text \<open>
  The modes \<open>"Static"\<close> and \<open>""\<close> on the canonical example: both print 20, as
  \<open>"dynamic"\<close> does.
\<close>

theorem unrecognised_mode_is_dynamic_witness:
  "''Static'' \<noteq> ''static'' \<and> '''' \<noteq> ''static''
   \<and> run_then_call 2 example_program ''g'' ''Static'' init_state
       = run_then_call 2 example_program ''g'' ''dynamic'' init_state
   \<and> map_option (\<lambda>(r, s'). out s') (run_then_call 2 example_program ''g'' ''Static'' init_state)
       = Some [Some 20]
   \<and> map_option (\<lambda>(r, s'). out s') (run_then_call 2 example_program ''g'' '''' init_state)
       = Some [Some 20]"
proof -
  have d: "map_option (\<lambda>(r, s'). out s') (run_then_call 2 example_program ''g'' ''dynamic'' init_state)
       = Some [Some 20]"
    by (simp add: run_defs example_program_def init_state_def Environment_get.simps
          numeral_2_eq_2)
  have a: "''Static'' \<noteq> ''static''" "'''' \<noteq> ''static''" by simp_all
  note t1 = unrecognised_mode_is_dynamic [OF a(1), where k = 2 and program = example_program
     and x = "''g''" and s = init_state]
  note t2 = unrecognised_mode_is_dynamic [OF a(2), where k = 2 and program = example_program
     and x = "''g''" and s = init_state]
  show ?thesis using d a t1 t2 by simp
qed

section \<open>The PRINT statement\<close>

text \<open>
  C10. Whatever Value the expression evaluates to, PRINT succeeds, appends the
  \<open>int_val\<close> field of that Value to the output and returns the Value; the tag is not
  consulted. A Value built from a Function pointer has the tag FUNC and an \<open>int_val\<close>
  that no constructor initialised. So printing a name right after a DEF bound it, in a
  live Environment, does not fail: it emits an integer that the program never determined
  (the output entry \<open>None\<close>).
\<close>

theorem print_emits_int_val:
  "(execute_expr e env scoping_mode s = Some (Inr v)
      \<longrightarrow> execute_stmt k (PRINT e) env scoping_mode s
            = Some (Inr v, s\<lparr>out := out s @ [int_val v]\<rparr>))
   \<and> type (Value_func f) = Value_FUNC \<and> int_val (Value_func f) = None
   \<and> (env_at s env = Some en
      \<longrightarrow> map_option (\<lambda>(r, s'). (r, out s'))
            (call_body k [DEF x b, PRINT (VAR x)] r0 env scoping_mode s)
          = Some (Inr (Value_func (length (funcs s))), out s @ [None]))"
  by (auto simp: Value_func_def new_Function_def Environment_set_def env_at_def
        Environment_get.simps)

text \<open>
  At \<open>self_shadow_state\<close>, \<open>print(f)\<close> with \<open>f\<close> bound to a function; at
  \<open>shadow_state\<close>, \<open>print(x)\<close> with \<open>x = 10\<close>, and \<open>def h\<close> followed by
  \<open>print(h)\<close>.
\<close>

theorem print_emits_int_val_witness:
  "execute_expr (VAR ''f'') 0 ''static'' self_shadow_state = Some (Inr (Value_func 0))
   \<and> execute_stmt 0 (PRINT (VAR ''f'')) 0 ''static'' self_shadow_state
       = Some (Inr (Value_func 0), self_shadow_state\<lparr>out := [None]\<rparr>)
   \<and> execute_stmt 0 (PRINT (VAR ''x'')) 1 ''static'' shadow_state
       = Some (Inr (Value_int 10), shadow_state\<lparr>out := [Some 10]\<rparr>)
   \<and> map_option (\<lambda>(r, s'). (r, out s'))
        (call_body 0 [DEF ''h'' [], PRINT (VAR ''h'')] Value_default 1 ''dynamic'' shadow_state)
       = Some (Inr (Value_func 0), [None])"
proof -
  have e1: "execute_expr (VAR ''f'') 0 ''static'' self_shadow_state = Some (Inr (Value_func 0))"
    by (simp add: self_shadow_state_def env_at_def Environment_get.simps)
  have e2: "execute_expr (VAR ''x'') 1 ''static'' shadow_state = Some (Inr (Value_int 10))"
    by (simp add: shadow_state_def env_at_def Environment_get.simps)
  have e3: "env_at shadow_state 1 = Some \<lparr>vars = Map.empty, parent = Some 0\<rparr>"
    by (simp add: shadow_state_def env_at_def)
  have o: "out self_shadow_state = []" "out shadow_state = []" "funcs shadow_state = []"
    "int_val (Value_int 10) = Some 10"
    by (simp_all add: self_shadow_state_def shadow_state_def Value_int_def)
  note t = print_emits_int_val
  have a: "execute_stmt 0 (PRINT (VAR ''f'')) 0 ''static'' self_shadow_state
       = Some (Inr (Value_func 0), self_shadow_state\<lparr>out := [None]\<rparr>)"
    using t [where e = "VAR ''f''" and env = 0 and scoping_mode = "''static''"
        and s = self_shadow_state and v = "Value_func 0" and f = 0 and k = 0] e1 o
    by simp
  have b: "execute_stmt 0 (PRINT (VAR ''x'')) 1 ''static'' shadow_state
       = Some (Inr (Value_int 10), shadow_state\<lparr>out := [Some 10]\<rparr>)"
    using t [where e = "VAR ''x''" and env = 1 and scoping_mode = "''static''"
        and s = shadow_state and v = "Value_int 10" and k = 0] e2 o
    by simp
  have c: "map_option (\<lambda>(r, s'). (r, out s'))
        (call_body 0 [DEF ''h'' [], PRINT (VAR ''h'')] Value_default 1 ''dynamic'' shadow_state)
       = Some (Inr (Value_func 0), [None])"
    using t [where env = 1 and scoping_mode = "''dynamic''" and s = shadow_state
        and en = "\<lparr>vars = Map.empty, parent = Some 0\<rparr>" and k = 0 and x = "''h''" and b = "[]"
        and ?r0.0 = Value_default] e3 o
    by simp
  show ?thesis using e1 a b c by simp
qed

end
